theory Spec2Isabelle
  imports Main
begin

section \<open>Data model (types.ts, config.ts)\<close>

text \<open>
  The plugin keeps, on a document, an array \<open>validations\<close> of entries, one per kind of
  attribute. At run time a kind is a JavaScript string; the TypeScript union
  \<open>'email' | 'phone' | 'identity' | 'address'\<close> restricts it only statically, so the
  model takes a kind to be a string and names the four members of the union.
  A \<open>Date\<close> is its \<open>getTime()\<close> value, an integer number of milliseconds; the numbers
  of the entries and options are integers.
\<close>

type_synonym ValidationType = string
type_synonym Date = int

definition validation_types :: "ValidationType list" where
  "validation_types = [''email'', ''phone'', ''identity'', ''address'']"

record 'm Validation =
  type :: ValidationType
  validated :: bool
  code :: string
  resends :: int
  created :: Date
  last_try :: "Date option"
  tries :: int
  expire_at :: "Date option"
  metadata :: "'m option"

record ValidationOptions =
  expiresIn :: "int option"
  codeLength :: "int option"
  maxTries :: "int option"
  maxResends :: "int option"

record ValidationConfig =
  ENABLED :: bool
  EMAIL_VALIDATION :: bool
  PHONE_VALIDATION :: bool
  IDENTITY_VALIDATION :: bool
  ADDRESS_VALIDATION :: bool
  DEFAULT_CODE_LENGTH :: int
  DEFAULT_EXPIRY :: int
  MAX_TRIES :: int
  MAX_RESENDS :: int

text \<open>The part of a document the plugin reads and writes: \<open>isNew\<close> and \<open>validations\<close>.\<close>

record 'm IValidatable =
  isNew :: bool
  validations :: "'m Validation list option"

definition defaultConfig :: ValidationConfig where
  "defaultConfig =
     \<lparr>ENABLED = True, EMAIL_VALIDATION = True, PHONE_VALIDATION = True,
      IDENTITY_VALIDATION = True, ADDRESS_VALIDATION = True,
      DEFAULT_CODE_LENGTH = 6, DEFAULT_EXPIRY = 3600, MAX_TRIES = 5, MAX_RESENDS = 3\<rparr>"


section \<open>Code and expiry (utils.ts)\<close>

text \<open>\<open>Number.prototype.toString\<close> on a natural number: its decimal digits.\<close>

fun toString :: "nat \<Rightarrow> string" where
  "toString n =
     (if n < 10 then [char_of (48 + n)]
      else toString (n div 10) @ [char_of (48 + n mod 10)])"

declare toString.simps [simp del]

text \<open>
  \<open>generateValidationCode\<close>. The random source is a parameter: \<open>rnd i\<close> is the value of
  \<open>Math.floor(Math.random() * 10)\<close> in iteration \<open>i\<close> of the loop. The loop
  \<open>for (let i = 0; i < length; i++) code += ...\<close> is \<open>generate_loop\<close>; an omitted
  argument (\<open>None\<close>) takes the default length.
\<close>

function generate_loop :: "(nat \<Rightarrow> nat) \<Rightarrow> int \<Rightarrow> nat \<Rightarrow> string \<Rightarrow> string" where
  "generate_loop rnd len i acc =
     (if int i < len then generate_loop rnd len (i + 1) (acc @ toString (rnd i)) else acc)"
  by pat_completeness auto
termination
  by (relation "measure (\<lambda>(rnd, len, i, acc). nat (len - int i))") auto

declare generate_loop.simps [simp del]

definition generateValidationCode :: "(nat \<Rightarrow> nat) \<Rightarrow> int option \<Rightarrow> string" where
  "generateValidationCode rnd len_arg =
     (let len = (case len_arg of None \<Rightarrow> DEFAULT_CODE_LENGTH defaultConfig | Some l \<Rightarrow> l)
      in generate_loop rnd len 0 '''')"

text \<open>\<open>calculateExpiry\<close>: \<open>now\<close> is the clock reading of its \<open>new Date()\<close>.\<close>

definition calculateExpiry :: "Date \<Rightarrow> int option \<Rightarrow> Date" where
  "calculateExpiry now expiresIn_arg =
     (let secs = (case expiresIn_arg of None \<Rightarrow> DEFAULT_EXPIRY defaultConfig | Some s \<Rightarrow> s)
      in now + secs * 1000)"

text \<open>
  \<open>options?.field || fallback\<close> on an optional number: the fallback is taken when the
  options or the field are absent and also when the field is \<open>0\<close>, which is falsy.
\<close>

definition option_or :: "ValidationOptions option \<Rightarrow> (ValidationOptions \<Rightarrow> int option) \<Rightarrow> int \<Rightarrow> int" where
  "option_or options field fallback =
     (case options of
        None \<Rightarrow> fallback
      | Some opts \<Rightarrow>
          (case field opts of
             None \<Rightarrow> fallback
           | Some n \<Rightarrow> if n = 0 then fallback else n))"

text \<open>
  \<open>createValidation\<close>. The three effects of the object literal, in the order in which
  it evaluates them: the clock reading of \<open>created\<close>, the random source of the code,
  the clock reading inside \<open>calculateExpiry\<close>. The fallbacks come from \<open>defaultConfig\<close>,
  as in the source.
\<close>

definition createValidation ::
  "Date \<Rightarrow> (nat \<Rightarrow> nat) \<Rightarrow> Date \<Rightarrow> ValidationType \<Rightarrow> ValidationOptions option \<Rightarrow> bool
     \<Rightarrow> 'm Validation" where
  "createValidation t_created rnd t_expiry ty options is_validated =
     (let codeLength' = option_or options codeLength (DEFAULT_CODE_LENGTH defaultConfig);
          expiresIn' = option_or options expiresIn (DEFAULT_EXPIRY defaultConfig)
      in \<lparr>type = ty,
          validated = is_validated,
          code = (if is_validated then '''' else generateValidationCode rnd (Some codeLength')),
          resends = 0,
          created = t_created,
          last_try = None,
          tries = 0,
          expire_at = (if is_validated then None else Some (calculateExpiry t_expiry (Some expiresIn'))),
          metadata = None\<rparr>)"


section \<open>The plugin's methods (index.ts)\<close>

text \<open>\<open>Array.prototype.findIndex\<close>; \<open>None\<close> is the source's \<open>-1\<close>.\<close>

fun findIndex :: "('a \<Rightarrow> bool) \<Rightarrow> 'a list \<Rightarrow> nat option" where
  "findIndex P [] = None"
| "findIndex P (x # xs) = (if P x then Some 0 else map_option Suc (findIndex P xs))"

text \<open>\<open>this.validations || []\<close>\<close>

definition currentValidations :: "'m IValidatable \<Rightarrow> 'm Validation list" where
  "currentValidations doc = (case validations doc of None \<Rightarrow> [] | Some vs \<Rightarrow> vs)"

definition isValidated :: "'m IValidatable \<Rightarrow> ValidationType \<Rightarrow> bool" where
  "isValidated doc ty =
     (case validations doc of
        None \<Rightarrow> False
      | Some vs \<Rightarrow>
          (case find (\<lambda>v. type v = ty) vs of None \<Rightarrow> False | Some v \<Rightarrow> validated v))"

text \<open>
  \<open>createValidationRequest\<close>: \<open>splice(existingIndex, 1)\<close> removes the element at the
  index found, the new entry is pushed, and the array is stored on the document.
  The result is the entry returned and the document afterwards.
\<close>

definition createValidationRequest ::
  "Date \<Rightarrow> (nat \<Rightarrow> nat) \<Rightarrow> Date \<Rightarrow> ValidationType \<Rightarrow> ValidationOptions option
     \<Rightarrow> 'm IValidatable \<Rightarrow> 'm Validation \<times> 'm IValidatable" where
  "createValidationRequest t_created rnd t_expiry ty options doc =
     (let vs = currentValidations doc;
          spliced = (case findIndex (\<lambda>v. type v = ty) vs of
                       None \<Rightarrow> vs
                     | Some existingIndex \<Rightarrow> take existingIndex vs @ drop (Suc existingIndex) vs);
          newValidation = createValidation t_created rnd t_expiry ty options False
      in (newValidation, doc\<lparr>validations := Some (spliced @ [newValidation])\<rparr>))"

text \<open>
  \<open>validateCode\<close>. \<open>find\<close> returns a reference to the first entry of the kind, and the
  method writes through it; the model keeps the entry's index and writes the entry
  back at that index. \<open>t_check\<close> is the clock reading of the expiry test, \<open>t_try\<close> the one
  stored in \<open>last_try\<close>. The result is the boolean returned and the document afterwards.
\<close>

definition validateCode ::
  "ValidationConfig \<Rightarrow> Date \<Rightarrow> Date \<Rightarrow> ValidationType \<Rightarrow> string
     \<Rightarrow> 'm IValidatable \<Rightarrow> bool \<times> 'm IValidatable" where
  "validateCode pluginConfig t_check t_try ty submitted doc =
     (let vs = currentValidations doc in
      case findIndex (\<lambda>v. type v = ty) vs of
        None \<Rightarrow> (False, doc)
      | Some i \<Rightarrow>
          (let validation = vs ! i in
           if validated validation then (True, doc)
           else if (case expire_at validation of None \<Rightarrow> False | Some e \<Rightarrow> e < t_check)
           then (False, doc)
           else
             (let counted = validation\<lparr>tries := tries validation + 1, last_try := Some t_try\<rparr> in
              if tries counted > MAX_TRIES pluginConfig
              then (False, doc\<lparr>validations := Some (vs[i := counted])\<rparr>)
              else
                (let isValid = (code counted = submitted) in
                 if isValid
                 then (True, doc\<lparr>validations := Some (vs[i := counted\<lparr>validated := True\<rparr>])\<rparr>)
                 else (False, doc\<lparr>validations := Some (vs[i := counted])\<rparr>)))))"

text \<open>
  The pre-save hook. Its four blocks differ only in the kind and in the flag of the
  configuration they read; \<open>autoValidate\<close> is one block, acting on the hook's local
  state (the array and \<open>hasChanges\<close>), and \<open>auto_blocks\<close> lists the four in the order of
  the source. \<open>clk ty\<close> is the clock reading of the \<open>createValidation\<close> call in the block
  of kind \<open>ty\<close>; that call has \<open>validated = true\<close>, so it draws no digit and does not
  reach \<open>calculateExpiry\<close>, and the model gives it a fixed random source and second
  clock reading, on which its result does not depend. The hook returns nothing; the
  model returns the final value of \<open>hasChanges\<close> (false on the paths that never reach
  it) and the document afterwards.
\<close>

definition autoValidate ::
  "(ValidationType \<Rightarrow> Date) \<Rightarrow> 'm Validation list \<times> bool \<Rightarrow> ValidationType \<times> bool
     \<Rightarrow> 'm Validation list \<times> bool" where
  "autoValidate clk st blk =
     (case st of (vs, hasChanges) \<Rightarrow>
      case blk of (ty, required) \<Rightarrow>
        if \<not> required then
          (case findIndex (\<lambda>v. type v = ty) vs of
             None \<Rightarrow> (vs @ [createValidation (clk ty) (\<lambda>_. 0) 0 ty None True], True)
           | Some i \<Rightarrow>
               if \<not> validated (vs ! i) then (vs[i := (vs ! i)\<lparr>validated := True\<rparr>], True)
               else (vs, hasChanges))
        else (vs, hasChanges))"

definition auto_blocks :: "ValidationConfig \<Rightarrow> (ValidationType \<times> bool) list" where
  "auto_blocks pluginConfig =
     [(''email'', EMAIL_VALIDATION pluginConfig),
      (''phone'', PHONE_VALIDATION pluginConfig),
      (''identity'', IDENTITY_VALIDATION pluginConfig),
      (''address'', ADDRESS_VALIDATION pluginConfig)]"

definition preSave ::
  "ValidationConfig \<Rightarrow> (ValidationType \<Rightarrow> Date) \<Rightarrow> 'm IValidatable \<Rightarrow> bool \<times> 'm IValidatable" where
  "preSave pluginConfig clk doc =
     (if \<not> ENABLED pluginConfig then (False, doc)
      else if isNew doc then
        (case foldl (autoValidate clk) (currentValidations doc, False) (auto_blocks pluginConfig) of
           (vs, hasChanges) \<Rightarrow>
             if hasChanges then (True, doc\<lparr>validations := Some vs\<rparr>) else (False, doc))
      else (False, doc))"


section \<open>Sequences of calls and auxiliary notions\<close>

text \<open>
  A caller's sequence of \<open>validateCode\<close> calls and runs of the pre-save hook on one
  document; \<open>run\<close> performs them from left to right and gives the document afterwards.
\<close>

datatype call =
  ValidateCode Date Date ValidationType string
| PreSave "ValidationType \<Rightarrow> Date"

fun perform :: "ValidationConfig \<Rightarrow> 'm IValidatable \<Rightarrow> call \<Rightarrow> 'm IValidatable" where
  "perform pluginConfig doc (ValidateCode t_check t_try ty submitted) =
     snd (validateCode pluginConfig t_check t_try ty submitted doc)"
| "perform pluginConfig doc (PreSave clk) = snd (preSave pluginConfig clk doc)"

definition run :: "ValidationConfig \<Rightarrow> call list \<Rightarrow> 'm IValidatable \<Rightarrow> 'm IValidatable" where
  "run pluginConfig calls doc = foldl (perform pluginConfig) doc calls"

text \<open>
  \<open>confirmed_only vs vs'\<close>: the array \<open>vs'\<close> has every entry of \<open>vs\<close> at its index, the same
  but for \<open>validated\<close>, which may have been set; \<open>vs'\<close> may be longer.
\<close>

definition confirmed_only :: "'m Validation list \<Rightarrow> 'm Validation list \<Rightarrow> bool" where
  "confirmed_only vs vs' \<longleftrightarrow>
     length vs \<le> length vs' \<and>
     (\<forall>j<length vs. vs' ! j = vs ! j \<or> vs' ! j = (vs ! j)\<lparr>validated := True\<rparr>)"

text \<open>The entry that a block of the hook pushes for kind \<open>ty\<close> at clock reading \<open>t\<close>.\<close>

definition preconfirmed :: "ValidationType \<Rightarrow> Date \<Rightarrow> 'm Validation" where
  "preconfirmed ty t =
     \<lparr>type = ty, validated = True, code = '''', resends = 0, created = t, last_try = None,
      tries = 0, expire_at = None, metadata = None\<rparr>"

text \<open>Concrete values for the instances below.\<close>

definition pending :: "ValidationType \<Rightarrow> string \<Rightarrow> int \<Rightarrow> Date \<Rightarrow> unit Validation" where
  "pending ty c n e =
     \<lparr>type = ty, validated = False, code = c, resends = 0, created = 0, last_try = None,
      tries = n, expire_at = Some e, metadata = None\<rparr>"

definition document :: "unit Validation list \<Rightarrow> unit IValidatable" where
  "document vs = \<lparr>isNew = True, validations = Some vs\<rparr>"

text \<open>A random source that always draws \<open>d\<close>, and a clock that always reads \<open>t\<close>.\<close>

definition digits :: "nat \<Rightarrow> nat \<Rightarrow> nat" where
  [simp]: "digits d i = d"

definition clock_at :: "Date \<Rightarrow> ValidationType \<Rightarrow> Date" where
  [simp]: "clock_at t ty = t"

definition no_options :: ValidationOptions where
  "no_options = \<lparr>expiresIn = None, codeLength = None, maxTries = None, maxResends = None\<rparr>"


section \<open>Facts about \<open>findIndex\<close>\<close>

lemma findIndex_SomeD:
  "findIndex P xs = Some i \<Longrightarrow> i < length xs \<and> P (xs ! i) \<and> (\<forall>j<i. \<not> P (xs ! j))"
proof (induction xs arbitrary: i)
  case Nil
  then show ?case by simp
next
  case (Cons x xs)
  show ?case
  proof (cases "P x")
    case True
    with Cons.prems show ?thesis by simp
  next
    case False
    with Cons.prems obtain k where k: "findIndex P xs = Some k" "i = Suc k" by auto
    from Cons.IH [OF k(1)] False k(2) show ?thesis
      by (auto simp: nth_Cons split: nat.splits)
  qed
qed

lemma findIndex_None_iff: "findIndex P xs = None \<longleftrightarrow> (\<forall>x\<in>set xs. \<not> P x)"
  by (induction xs) auto

lemma findIndex_map_cong:
  "map P xs = map P ys \<Longrightarrow> findIndex P xs = findIndex P ys"
proof (induction xs arbitrary: ys)
  case Nil
  then show ?case by simp
next
  case (Cons x xs)
  then obtain y ys' where ys: "ys = y # ys'" by (cases ys) auto
  with Cons.prems have "P x = P y" "map P xs = map P ys'" by auto
  with Cons.IH ys show ?case by simp
qed

lemma findIndex_update_same:
  assumes "P (xs ! i) = P y" "i < length xs"
  shows "findIndex P (xs[i := y]) = findIndex P xs"
proof (rule findIndex_map_cong)
  show "map P (xs[i := y]) = map P xs"
    using assms by (simp add: map_update list_update_same_conv)
qed

lemma find_findIndex: "find P xs = map_option (\<lambda>i. xs ! i) (findIndex P xs)"
  by (induction xs) (auto simp: option.map_comp comp_def)


section \<open>Submitting a code\<close>

lemma validateCode_validated:
  assumes "findIndex (\<lambda>v. type v = ty) (currentValidations doc) = Some i"
    and "validated (currentValidations doc ! i)"
  shows "validateCode pluginConfig t_check t_try ty submitted doc = (True, doc)"
  using assms by (simp add: validateCode_def)

lemma validateCode_True_validated:
  assumes "validateCode pluginConfig t_check t_try ty submitted doc = (True, doc')"
  shows "\<exists>i. findIndex (\<lambda>v. type v = ty) (currentValidations doc') = Some i
           \<and> validated (currentValidations doc' ! i)"
proof (cases "findIndex (\<lambda>v. type v = ty) (currentValidations doc)")
  case None
  with assms show ?thesis by (simp add: validateCode_def)
next
  case (Some i)
  let ?vs = "currentValidations doc"
  from findIndex_SomeD [OF Some] have i: "i < length ?vs" "type (?vs ! i) = ty" by auto
  show ?thesis
  proof (cases "validated (?vs ! i)")
    case True
    with Some assms show ?thesis by (simp add: validateCode_def)
  next
    case False
    let ?w = "(?vs ! i)\<lparr>tries := tries (?vs ! i) + 1, last_try := Some t_try, validated := True\<rparr>"
    from assms Some False have doc': "doc' = doc\<lparr>validations := Some (?vs[i := ?w])\<rparr>"
      by (auto simp: validateCode_def Let_def split: if_splits)
    have "findIndex (\<lambda>v. type v = ty) (?vs[i := ?w]) = findIndex (\<lambda>v. type v = ty) ?vs"
      by (rule findIndex_update_same) (use i in simp_all)
    with Some i show ?thesis by (simp add: doc' currentValidations_def)
  qed
qed

text \<open>
  Claim C1. Let the first entry of the kind be live: not validated, and with no expiry
  or one that is not before the clock reading. Then every submission adds one to
  \<open>tries\<close> and stores \<open>last_try\<close> before the limit is tested. With \<open>MAX_TRIES = n\<close>: a
  submission that brings \<open>tries\<close> to at most \<open>n\<close> (so also exactly to \<open>n\<close>) is compared with
  the code, and the right code succeeds and sets \<open>validated\<close>; a submission that brings
  \<open>tries\<close> above \<open>n\<close> (so also to \<open>n + 1\<close>) returns false whatever was submitted, the right
  code included, and the entry keeps the new \<open>tries\<close> and \<open>last_try\<close>.
\<close>

theorem validateCode_attempt_ceiling:
  fixes doc :: "'m IValidatable"
  assumes found: "findIndex (\<lambda>v. type v = ty) (currentValidations doc) = Some i"
    and entry: "v = currentValidations doc ! i"
    and unconfirmed: "\<not> validated v"
    and unexpired: "\<forall>e. expire_at v = Some e \<longrightarrow> \<not> e < t_check"
    and limit: "MAX_TRIES pluginConfig = n"
  shows "(tries v + 1 \<le> n \<and> submitted = code v \<longrightarrow>
           validateCode pluginConfig t_check t_try ty submitted doc =
             (True, doc\<lparr>validations := Some ((currentValidations doc)
                [i := v\<lparr>tries := tries v + 1, last_try := Some t_try, validated := True\<rparr>])\<rparr>))
       \<and> (tries v + 1 \<le> n \<and> submitted \<noteq> code v \<longrightarrow>
           validateCode pluginConfig t_check t_try ty submitted doc =
             (False, doc\<lparr>validations := Some ((currentValidations doc)
                [i := v\<lparr>tries := tries v + 1, last_try := Some t_try\<rparr>])\<rparr>))
       \<and> (tries v + 1 > n \<longrightarrow>
           validateCode pluginConfig t_check t_try ty submitted doc =
             (False, doc\<lparr>validations := Some ((currentValidations doc)
                [i := v\<lparr>tries := tries v + 1, last_try := Some t_try\<rparr>])\<rparr>))"
proof -
  have live: "(case expire_at (currentValidations doc ! i) of None \<Rightarrow> False | Some e \<Rightarrow> e < t_check) = False"
    using unexpired entry by (cases "expire_at v") auto
  show ?thesis
    using found unconfirmed limit live unfolding entry validateCode_def Let_def
    by auto
qed

text \<open>
  With the default \<open>MAX_TRIES = 5\<close>: submitted to an entry with four earlier tries, the
  right code succeeds and a wrong one fails, \<open>tries\<close> becoming 5 in both; submitted to
  an entry with five earlier tries, the right code fails and leaves \<open>tries = 6\<close>.
\<close>

theorem validateCode_attempt_ceiling_witness:
  "validateCode defaultConfig 50 60 ''email'' ''123456'' (document [pending ''email'' ''123456'' 4 100])
     = (True, document [(pending ''email'' ''123456'' 5 100)\<lparr>last_try := Some 60, validated := True\<rparr>])
   \<and> validateCode defaultConfig 50 60 ''email'' ''000000'' (document [pending ''email'' ''123456'' 4 100])
     = (False, document [(pending ''email'' ''123456'' 5 100)\<lparr>last_try := Some 60\<rparr>])
   \<and> validateCode defaultConfig 50 60 ''email'' ''123456'' (document [pending ''email'' ''123456'' 5 100])
     = (False, document [(pending ''email'' ''123456'' 6 100)\<lparr>last_try := Some 60\<rparr>])"
proof -
  let ?d4 = "document [pending ''email'' ''123456'' 4 100]"
  let ?d5 = "document [pending ''email'' ''123456'' 5 100]"
  have f4: "findIndex (\<lambda>v. type v = ''email'') (currentValidations ?d4) = Some 0"
    and f5: "findIndex (\<lambda>v. type v = ''email'') (currentValidations ?d5) = Some 0"
    by (simp_all add: document_def pending_def currentValidations_def)
  have e4: "pending ''email'' ''123456'' 4 100 = currentValidations ?d4 ! 0"
    and e5: "pending ''email'' ''123456'' 5 100 = currentValidations ?d5 ! 0"
    by (simp_all add: document_def currentValidations_def)
  have u: "\<not> validated (pending ''email'' ''123456'' 4 100)"
      "\<not> validated (pending ''email'' ''123456'' 5 100)"
    by (simp_all add: pending_def)
  have x: "\<forall>e. expire_at (pending ''email'' ''123456'' 4 100) = Some e \<longrightarrow> \<not> e < 50"
      "\<forall>e. expire_at (pending ''email'' ''123456'' 5 100) = Some e \<longrightarrow> \<not> e < 50"
    by (simp_all add: pending_def)
  have m: "MAX_TRIES defaultConfig = 5" by (simp add: defaultConfig_def)
  show ?thesis
    using validateCode_attempt_ceiling [OF f4 e4 u(1) x(1) m, of "''123456''" 60]
      validateCode_attempt_ceiling [OF f4 e4 u(1) x(1) m, of "''000000''" 60]
      validateCode_attempt_ceiling [OF f5 e5 u(2) x(2) m, of "''123456''" 60]
    by (simp add: pending_def document_def currentValidations_def)
qed

text \<open>
  Claim C2. When the first entry of the kind is validated, \<open>validateCode\<close> returns true
  and leaves the document as it is, whatever the submitted string, the clock, the
  entry's expiry, its \<open>tries\<close> and the configuration. And after any call that returned
  true, a further call for the kind with any string returns true and changes nothing;
  the document being the same again, so does every call after it.
\<close>

theorem validateCode_confirmed_idempotent:
  fixes doc doc' :: "'m IValidatable"
  shows "(findIndex (\<lambda>v. type v = ty) (currentValidations doc) = Some i
            \<and> validated (currentValidations doc ! i)
          \<longrightarrow> validateCode pluginConfig t_check t_try ty submitted doc = (True, doc))
       \<and> (validateCode pluginConfig t_check t_try ty submitted doc = (True, doc')
          \<longrightarrow> validateCode pluginConfig' t_check' t_try' ty submitted' doc' = (True, doc'))"
proof (intro conjI impI)
  assume "findIndex (\<lambda>v. type v = ty) (currentValidations doc) = Some i
            \<and> validated (currentValidations doc ! i)"
  then show "validateCode pluginConfig t_check t_try ty submitted doc = (True, doc)"
    by (simp add: validateCode_validated)
next
  assume "validateCode pluginConfig t_check t_try ty submitted doc = (True, doc')"
  from validateCode_True_validated [OF this] obtain k
    where "findIndex (\<lambda>v. type v = ty) (currentValidations doc') = Some k"
      and "validated (currentValidations doc' ! k)" by blast
  then show "validateCode pluginConfig' t_check' t_try' ty submitted' doc' = (True, doc')"
    by (rule validateCode_validated)
qed

text \<open>
  A pending entry is confirmed by its code; a second call, later than the expiry and
  with a wrong string, returns true and leaves \<open>tries = 1\<close>. An entry that is validated
  with seven tries and an expiry in the past also gives true and is left as it is.
\<close>

theorem validateCode_confirmed_idempotent_witness:
  "validateCode defaultConfig 50 60 ''email'' ''123456'' (document [pending ''email'' ''123456'' 0 100])
     = (True, document [(pending ''email'' ''123456'' 1 100)\<lparr>last_try := Some 60, validated := True\<rparr>])
   \<and> validateCode defaultConfig 500 600 ''email'' ''000000''
       (document [(pending ''email'' ''123456'' 1 100)\<lparr>last_try := Some 60, validated := True\<rparr>])
     = (True, document [(pending ''email'' ''123456'' 1 100)\<lparr>last_try := Some 60, validated := True\<rparr>])
   \<and> validateCode defaultConfig 500 600 ''email'' ''000000''
       (document [(pending ''email'' ''123456'' 7 100)\<lparr>validated := True\<rparr>])
     = (True, document [(pending ''email'' ''123456'' 7 100)\<lparr>validated := True\<rparr>])"
proof -
  let ?d = "document [pending ''email'' ''123456'' 0 100]"
  let ?d' = "document [(pending ''email'' ''123456'' 1 100)\<lparr>last_try := Some 60, validated := True\<rparr>]"
  let ?c = "document [(pending ''email'' ''123456'' 7 100)\<lparr>validated := True\<rparr>]"
  have first: "validateCode defaultConfig 50 60 ''email'' ''123456'' ?d = (True, ?d')"
    by (simp add: validateCode_def document_def pending_def currentValidations_def defaultConfig_def)
  from validateCode_confirmed_idempotent
    [of "''email''" ?d 0 defaultConfig 50 60 "''123456''" ?d' defaultConfig 500 600 "''000000''"]
  have again: "validateCode defaultConfig 500 600 ''email'' ''000000'' ?d' = (True, ?d')"
    using first by blast
  have "findIndex (\<lambda>v. type v = ''email'') (currentValidations ?c) = Some 0
      \<and> validated (currentValidations ?c ! 0)"
    by (simp add: document_def pending_def currentValidations_def)
  with validateCode_confirmed_idempotent
    [of "''email''" ?c 0 defaultConfig 500 600 "''000000''" ?c defaultConfig 500 600 "''000000''"]
  have "validateCode defaultConfig 500 600 ''email'' ''000000'' ?c = (True, ?c)"
    by blast
  with first again show ?thesis by simp
qed

text \<open>
  Claim C3. When the first entry of the kind is not validated and its \<open>expire_at\<close> is
  present and before the clock reading, \<open>validateCode\<close> returns false and the document,
  with every field of the entry, is as it was.
\<close>

theorem validateCode_expired_unchanged:
  fixes doc :: "'m IValidatable"
  assumes "findIndex (\<lambda>v. type v = ty) (currentValidations doc) = Some i"
    and "\<not> validated (currentValidations doc ! i)"
    and "expire_at (currentValidations doc ! i) = Some e"
    and "e < t_check"
  shows "validateCode pluginConfig t_check t_try ty submitted doc = (False, doc)"
  using assms by (simp add: validateCode_def)

text \<open>An entry that expired one millisecond ago: the right code is refused, \<open>tries\<close> stays 2.\<close>

theorem validateCode_expired_unchanged_witness:
  "validateCode defaultConfig 1000 1001 ''email'' ''123456'' (document [pending ''email'' ''123456'' 2 999])
     = (False, document [pending ''email'' ''123456'' 2 999])"
proof -
  let ?d = "document [pending ''email'' ''123456'' 2 999]"
  have "findIndex (\<lambda>v. type v = ''email'') (currentValidations ?d) = Some 0"
    and "\<not> validated (currentValidations ?d ! 0)"
    and "expire_at (currentValidations ?d ! 0) = Some 999"
    and "(999::int) < 1000"
    by (simp_all add: document_def pending_def currentValidations_def)
  then show ?thesis by (rule validateCode_expired_unchanged)
qed


section \<open>Requesting a validation\<close>

lemma filter_splice:
  "findIndex P xs = Some i \<Longrightarrow> filter P (take i xs @ drop (Suc i) xs) = tl (filter P xs)"
proof (induction xs arbitrary: i)
  case Nil
  then show ?case by simp
next
  case (Cons x xs)
  show ?case
  proof (cases "P x")
    case True
    with Cons.prems show ?thesis by simp
  next
    case False
    with Cons.prems obtain k where k: "findIndex P xs = Some k" "i = Suc k" by auto
    from Cons.IH [OF k(1)] False k(2) show ?thesis by simp
  qed
qed

lemma filter_others_splice:
  "findIndex P xs = Some i \<Longrightarrow>
     filter (\<lambda>x. \<not> P x) (take i xs @ drop (Suc i) xs) = filter (\<lambda>x. \<not> P x) xs"
proof (induction xs arbitrary: i)
  case Nil
  then show ?case by simp
next
  case (Cons x xs)
  show ?case
  proof (cases "P x")
    case True
    with Cons.prems show ?thesis by simp
  next
    case False
    with Cons.prems obtain k where k: "findIndex P xs = Some k" "i = Suc k" by auto
    from Cons.IH [OF k(1)] False k(2) show ?thesis by simp
  qed
qed

lemma find_filter: "find P xs = (case filter P xs of [] \<Rightarrow> None | x # _ \<Rightarrow> Some x)"
  by (induction xs) auto

lemma createValidation_fresh:
  "type (createValidation t1 rnd t2 ty options False) = ty"
  "\<not> validated (createValidation t1 rnd t2 ty options False)"
  "tries (createValidation t1 rnd t2 ty options False) = 0"
  "resends (createValidation t1 rnd t2 ty options False) = 0"
  by (simp_all add: createValidation_def Let_def)

lemma currentValidations_update [simp]:
  "currentValidations (doc\<lparr>validations := Some vs\<rparr>) = vs"
  by (simp add: currentValidations_def)

lemma createValidationRequest_result:
  assumes "createValidationRequest t1 rnd t2 ty options doc = (e, doc')"
  shows "e = createValidation t1 rnd t2 ty options False"
    and "currentValidations doc' =
           (case findIndex (\<lambda>v. type v = ty) (currentValidations doc) of
              None \<Rightarrow> currentValidations doc
            | Some i \<Rightarrow> take i (currentValidations doc) @ drop (Suc i) (currentValidations doc)) @ [e]"
    and "validations doc' = Some (currentValidations doc')"
  using assms by (auto simp: createValidationRequest_def Let_def currentValidations_update)

lemma createValidationRequest_filter:
  assumes "createValidationRequest t1 rnd t2 ty options doc = (e, doc')"
  shows "filter (\<lambda>v. type v = ty) (currentValidations doc') =
           tl (filter (\<lambda>v. type v = ty) (currentValidations doc)) @ [e]"
    and "filter (\<lambda>v. type v \<noteq> ty) (currentValidations doc') =
           filter (\<lambda>v. type v \<noteq> ty) (currentValidations doc)"
proof -
  note r = createValidationRequest_result [OF assms]
  have e: "type e = ty" by (simp add: r(1) createValidation_fresh)
  show "filter (\<lambda>v. type v = ty) (currentValidations doc') =
           tl (filter (\<lambda>v. type v = ty) (currentValidations doc)) @ [e]"
  proof (cases "findIndex (\<lambda>v. type v = ty) (currentValidations doc)")
    case None
    then have "filter (\<lambda>v. type v = ty) (currentValidations doc) = []"
      by (simp add: findIndex_None_iff filter_empty_conv)
    with None e show ?thesis by (simp add: r(2))
  next
    case (Some i)
    with e filter_splice [OF Some] show ?thesis by (simp add: r(2))
  qed
  show "filter (\<lambda>v. type v \<noteq> ty) (currentValidations doc') =
           filter (\<lambda>v. type v \<noteq> ty) (currentValidations doc)"
  proof (cases "findIndex (\<lambda>v. type v = ty) (currentValidations doc)")
    case None
    with e show ?thesis by (simp add: r(2))
  next
    case (Some i)
    with e filter_others_splice [OF Some] show ?thesis by (simp add: r(2))
  qed
qed

lemma isValidated_filter:
  assumes "validations doc = Some (currentValidations doc)"
    and "filter (\<lambda>v. type v = ty) (currentValidations doc) = [e]"
  shows "isValidated doc ty = validated e"
  using assms by (simp add: isValidated_def find_filter)

text \<open>
  Claim C4, as amended. \<open>createValidationRequest\<close> removes the first entry of the kind,
  pushes a new entry (not validated, \<open>tries = 0\<close>, \<open>resends = 0\<close>) and returns it: the
  entries of the kind afterwards are those before but the first, then the new one, and
  the entries of other kinds are as before. So for a document with at most one entry
  of the kind, after one call and after two calls the only entry of the kind is the
  one just created, its counters are 0, and \<open>isValidated\<close> is false. The claim as the
  specification words it, for every array, fails on an array with two entries of the
  kind, of which only the first is removed.
\<close>

theorem createValidationRequest_replaces_first:
  fixes doc :: "'m IValidatable"
  assumes first: "createValidationRequest t1 rnd t2 ty options doc = (e, doc')"
    and second: "createValidationRequest t1' rnd' t2' ty options' doc' = (e', doc'')"
  shows "type e = ty \<and> \<not> validated e \<and> tries e = 0 \<and> resends e = 0
       \<and> currentValidations doc' \<noteq> [] \<and> last (currentValidations doc') = e
       \<and> filter (\<lambda>v. type v = ty) (currentValidations doc') =
           tl (filter (\<lambda>v. type v = ty) (currentValidations doc)) @ [e]
       \<and> filter (\<lambda>v. type v \<noteq> ty) (currentValidations doc') =
           filter (\<lambda>v. type v \<noteq> ty) (currentValidations doc)
       \<and> (length (filter (\<lambda>v. type v = ty) (currentValidations doc)) \<le> 1 \<longrightarrow>
            filter (\<lambda>v. type v = ty) (currentValidations doc') = [e]
            \<and> \<not> isValidated doc' ty
            \<and> filter (\<lambda>v. type v = ty) (currentValidations doc'') = [e']
            \<and> tries e' = 0 \<and> resends e' = 0
            \<and> \<not> isValidated doc'' ty)"
proof -
  note r1 = createValidationRequest_result [OF first]
  note r2 = createValidationRequest_result [OF second]
  note f1 = createValidationRequest_filter [OF first]
  note f2 = createValidationRequest_filter [OF second]
  have fresh: "type e = ty" "\<not> validated e" "tries e = 0" "resends e = 0"
    by (simp_all add: r1(1) createValidation_fresh)
  have fresh': "\<not> validated e'" "tries e' = 0" "resends e' = 0"
    by (simp_all add: r2(1) createValidation_fresh)
  have pushed: "currentValidations doc' \<noteq> []" "last (currentValidations doc') = e"
    by (simp_all add: r1(2))
  have single: "filter (\<lambda>v. type v = ty) (currentValidations doc') = [e]
            \<and> \<not> isValidated doc' ty
            \<and> filter (\<lambda>v. type v = ty) (currentValidations doc'') = [e']
            \<and> tries e' = 0 \<and> resends e' = 0
            \<and> \<not> isValidated doc'' ty"
    if "length (filter (\<lambda>v. type v = ty) (currentValidations doc)) \<le> 1"
  proof -
    from that have "tl (filter (\<lambda>v. type v = ty) (currentValidations doc)) = []"
      by (cases "filter (\<lambda>v. type v = ty) (currentValidations doc)") auto
    with f1(1) have one: "filter (\<lambda>v. type v = ty) (currentValidations doc') = [e]" by simp
    with f2(1) have two: "filter (\<lambda>v. type v = ty) (currentValidations doc'') = [e']" by simp
    from isValidated_filter [OF r1(3) one] fresh(2) have "\<not> isValidated doc' ty" by simp
    moreover from isValidated_filter [OF r2(3) two] fresh'(1) have "\<not> isValidated doc'' ty" by simp
    ultimately show ?thesis using one two fresh' by simp
  qed
  from fresh pushed f1 single show ?thesis by blast
qed

text \<open>
  An email entry with three tries and two resends is replaced by a fresh one, the
  phone entry stays, and a second request leaves one email entry again.
\<close>

theorem createValidationRequest_replaces_first_witness:
  "createValidationRequest 10 (digits 7) 10 ''email'' None
       (document [(pending ''email'' ''123456'' 3 100)\<lparr>resends := 2\<rparr>, pending ''phone'' ''2222'' 1 100])
     = (\<lparr>type = ''email'', validated = False, code = ''777777'', resends = 0, created = 10,
         last_try = None, tries = 0, expire_at = Some 3600010, metadata = None\<rparr>,
        document [pending ''phone'' ''2222'' 1 100,
          \<lparr>type = ''email'', validated = False, code = ''777777'', resends = 0, created = 10,
           last_try = None, tries = 0, expire_at = Some 3600010, metadata = None\<rparr>])
   \<and> \<not> isValidated (document [pending ''phone'' ''2222'' 1 100,
          \<lparr>type = ''email'', validated = False, code = ''777777'', resends = 0, created = 10,
           last_try = None, tries = 0, expire_at = Some 3600010, metadata = None\<rparr>]) ''email''
   \<and> filter (\<lambda>v. type v = ''email'')
        (currentValidations (snd (createValidationRequest 20 (digits 3) 20 ''email'' None
           (document [pending ''phone'' ''2222'' 1 100,
             \<lparr>type = ''email'', validated = False, code = ''777777'', resends = 0, created = 10,
              last_try = None, tries = 0, expire_at = Some 3600010, metadata = None\<rparr>]))))
     = [\<lparr>type = ''email'', validated = False, code = ''333333'', resends = 0, created = 20,
         last_try = None, tries = 0, expire_at = Some 3600020, metadata = None\<rparr>]"
proof -
  let ?d = "document [(pending ''email'' ''123456'' 3 100)\<lparr>resends := 2\<rparr>, pending ''phone'' ''2222'' 1 100]"
  let ?e = "\<lparr>type = ''email'', validated = False, code = ''777777'', resends = 0, created = 10,
         last_try = None, tries = 0, expire_at = Some 3600010, metadata = None :: unit option\<rparr>"
  let ?d' = "document [pending ''phone'' ''2222'' 1 100, ?e]"
  let ?e' = "\<lparr>type = ''email'', validated = False, code = ''333333'', resends = 0, created = 20,
         last_try = None, tries = 0, expire_at = Some 3600020, metadata = None :: unit option\<rparr>"
  have gen: "generateValidationCode (digits 7) (Some 6) = ''777777''"
      "generateValidationCode (digits 3) (Some 6) = ''333333''"
    by code_simp+
  have new: "createValidation 10 (digits 7) 10 ''email'' None False = ?e"
    "createValidation 20 (digits 3) 20 ''email'' None False = ?e'"
    by (simp_all add: createValidation_def option_or_def defaultConfig_def gen calculateExpiry_def)
  have first: "createValidationRequest 10 (digits 7) 10 ''email'' None ?d = (?e, ?d')"
    by (simp add: createValidationRequest_def new Let_def)
       (simp add: document_def pending_def currentValidations_def)
  have second: "createValidationRequest 20 (digits 3) 20 ''email'' None ?d'
      = (?e', snd (createValidationRequest 20 (digits 3) 20 ''email'' None ?d'))"
    by (simp add: createValidationRequest_def new Let_def)
  have one: "length (filter (\<lambda>v. type v = ''email'') (currentValidations ?d)) \<le> 1"
    by (simp add: document_def pending_def currentValidations_def)
  from createValidationRequest_replaces_first [OF first second] one first
  show ?thesis by simp
qed

text \<open>
  Claim C4 as stated fails here: the array holds two email entries, the second
  validated. After the request there are two email entries, and \<open>isValidated\<close>, which
  reads the first of them, is true.
\<close>

theorem createValidationRequest_duplicates_counterexample:
  "map type
      (currentValidations (snd (createValidationRequest 10 (digits 7) 10 ''email'' None
         (document [pending ''email'' ''111111'' 0 100,
                    (pending ''email'' ''222222'' 0 100)\<lparr>validated := True\<rparr>]))))
     = [''email'', ''email'']
   \<and> isValidated (snd (createValidationRequest 10 (digits 7) 10 ''email'' None
         (document [pending ''email'' ''111111'' 0 100,
                    (pending ''email'' ''222222'' 0 100)\<lparr>validated := True\<rparr>]))) ''email''"
  by (simp add: createValidationRequest_def createValidation_def Let_def isValidated_def
      document_def pending_def currentValidations_def)


section \<open>Options, kinds outside the union, lengths below one\<close>

lemma option_or_cases:
  "option_or None field d = d"
  "field opts = None \<Longrightarrow> option_or (Some opts) field d = d"
  "field opts = Some 0 \<Longrightarrow> option_or (Some opts) field d = d"
  "field opts = Some n \<Longrightarrow> n \<noteq> 0 \<Longrightarrow> option_or (Some opts) field d = n"
  by (simp_all add: option_or_def)

lemma createValidation_uses_options:
  "codeLength opts = Some n \<Longrightarrow> n \<noteq> 0 \<Longrightarrow>
     code (createValidation t1 rnd t2 ty (Some opts) False) = generateValidationCode rnd (Some n)"
  "expiresIn opts = Some s \<Longrightarrow> s \<noteq> 0 \<Longrightarrow>
     expire_at (createValidation t1 rnd t2 ty (Some opts) False) = Some (t2 + s * 1000)"
  "code (createValidation t1 rnd t2 ty None False) = generateValidationCode rnd (Some 6)"
  "expire_at (createValidation t1 rnd t2 ty None False) = Some (t2 + 3600 * 1000)"
  by (simp_all add: createValidation_def option_or_def calculateExpiry_def defaultConfig_def)

text \<open>
  Claim C5 says that \<open>expiresIn = 0\<close> is used as given and makes the entry expire at once.
  \<open>createValidation\<close> reads the option with \<open>||\<close>, so \<open>0\<close> is taken for an absent value:
  with the clock at 1000 the entry expires at 1000 + 3600 * 1000, the default, although
  \<open>calculateExpiry\<close> itself, given \<open>0\<close>, returns the clock reading.
\<close>

theorem createValidation_expiresIn_zero:
  "expire_at (createValidation 1000 rnd 1000 ''email'' (Some (no_options\<lparr>expiresIn := Some 0\<rparr>)) False)
     = Some 3601000
   \<and> calculateExpiry 1000 (Some 0) = 1000"
  by (simp add: createValidation_def option_or_def calculateExpiry_def defaultConfig_def no_options_def)

text \<open>
  Claim C6 as stated fails: neither method has a \<open>throw\<close>, and their results in the model
  are plain values. For the kind \<open>fax\<close>, outside the union, \<open>validateCode\<close> returns false
  and leaves the document alone, and \<open>createValidationRequest\<close> returns an entry of kind
  \<open>fax\<close> and stores it.
\<close>

theorem unknown_kind_returns_counterexample:
  "''fax'' \<notin> set validation_types
   \<and> validateCode defaultConfig 50 60 ''fax'' ''123456'' (document [pending ''email'' ''123456'' 0 100])
       = (False, document [pending ''email'' ''123456'' 0 100])
   \<and> type (fst (createValidationRequest 10 (digits 7) 10 ''fax'' None (document []))) = ''fax''
   \<and> currentValidations (snd (createValidationRequest 10 (digits 7) 10 ''fax'' None (document [])))
       = [fst (createValidationRequest 10 (digits 7) 10 ''fax'' None (document []))]"
  by (simp add: validation_types_def validateCode_def createValidationRequest_def
      createValidation_def Let_def document_def pending_def currentValidations_def)

text \<open>
  Claim C6, as amended. A kind outside the union, which the TypeScript signature
  excludes, is not rejected at run time. On a document whose entries all have kinds
  of the union, \<open>validateCode\<close> for such a kind returns false and changes nothing, and
  \<open>createValidationRequest\<close> pushes and returns a new, not validated entry of that kind.
\<close>

theorem unknown_kind_not_rejected:
  fixes doc :: "'m IValidatable"
  assumes outside: "ty \<notin> set validation_types"
    and inside: "\<forall>v\<in>set (currentValidations doc). type v \<in> set validation_types"
  shows "validateCode pluginConfig t_check t_try ty submitted doc = (False, doc)
       \<and> (\<exists>e doc'. createValidationRequest t1 rnd t2 ty options doc = (e, doc')
             \<and> type e = ty \<and> \<not> validated e
             \<and> currentValidations doc' = currentValidations doc @ [e])"
proof -
  from outside inside have none: "findIndex (\<lambda>v. type v = ty) (currentValidations doc) = None"
    by (auto simp: findIndex_None_iff)
  then have "validateCode pluginConfig t_check t_try ty submitted doc = (False, doc)"
    by (simp add: validateCode_def)
  moreover obtain e doc' where r: "createValidationRequest t1 rnd t2 ty options doc = (e, doc')"
    by (cases "createValidationRequest t1 rnd t2 ty options doc")
  moreover from createValidationRequest_result [OF r] none
  have "type e = ty" "\<not> validated e" "currentValidations doc' = currentValidations doc @ [e]"
    by (simp_all add: createValidation_fresh)
  ultimately show ?thesis by blast
qed

text \<open>The kind \<open>fax\<close> on a document that holds one email entry.\<close>

theorem unknown_kind_not_rejected_witness:
  "validateCode defaultConfig 50 60 ''fax'' ''123456'' (document [pending ''email'' ''123456'' 0 100])
     = (False, document [pending ''email'' ''123456'' 0 100])
   \<and> (\<exists>e doc'. createValidationRequest 10 (digits 7) 10 ''fax'' None
                  (document [pending ''email'' ''123456'' 0 100]) = (e, doc')
         \<and> type e = ''fax'' \<and> \<not> validated e
         \<and> currentValidations doc' = [pending ''email'' ''123456'' 0 100, e])"
proof -
  let ?d = "document [pending ''email'' ''123456'' 0 100]"
  have out: "''fax'' \<notin> set validation_types"
    by (simp add: validation_types_def)
  have ins: "\<forall>v\<in>set (currentValidations ?d). type v \<in> set validation_types"
    by (simp add: validation_types_def document_def pending_def currentValidations_def)
  have cv: "currentValidations ?d = [pending ''email'' ''123456'' 0 100]"
    by (simp add: document_def currentValidations_def)
  from unknown_kind_not_rejected [OF out ins, of defaultConfig 50 60 "''123456''" 10 "digits 7" 10 None]
  show ?thesis by (simp add: cv)
qed

text \<open>
  The code generated for a length is the digits drawn in iterations \<open>0\<close> to
  \<open>length - 1\<close>, in order; when every draw is a digit below 10, it has as many
  characters as the length, and none for a length of at most 0.
\<close>

lemma generate_loop_concat:
  "generate_loop rnd len i acc = acc @ concat (map (\<lambda>j. toString (rnd j)) [i..<nat len])"
proof (induction rnd len i acc rule: generate_loop.induct)
  case (1 rnd len i acc)
  show ?case
  proof (cases "int i < len")
    case True
    then have "[i..<nat len] = i # [i + 1..<nat len]"
      by (simp add: upt_conv_Cons)
    with True "1.IH" show ?thesis
      by (subst generate_loop.simps) simp
  next
    case False
    then show ?thesis by (subst generate_loop.simps) simp
  qed
qed

lemma generateValidationCode_concat:
  "generateValidationCode rnd (Some len) = concat (map (\<lambda>j. toString (rnd j)) [0..<nat len])"
  by (simp add: generateValidationCode_def generate_loop_concat)

lemma length_toString_digit: "d < 10 \<Longrightarrow> length (toString d) = 1"
  by (subst toString.simps) simp

lemma generate_loop_length:
  assumes "\<forall>j. rnd j < 10"
  shows "length (generate_loop rnd len i acc) = length acc + (nat len - i)"
  using assms
proof (induction rnd len i acc rule: generate_loop.induct)
  case (1 rnd' len i acc)
  show ?case
  proof (cases "int i < len")
    case True
    with "1.IH" "1.prems" show ?thesis
      by (subst generate_loop.simps) (auto simp: length_toString_digit)
  next
    case False
    then show ?thesis by (subst generate_loop.simps) simp
  qed
qed

lemma generateValidationCode_length:
  "\<forall>j. rnd j < 10 \<Longrightarrow> length (generateValidationCode rnd (Some len)) = nat len"
  by (simp add: generateValidationCode_def generate_loop_length)

lemma generate_loop_done: "len \<le> int i \<Longrightarrow> generate_loop rnd len i acc = acc"
  by (simp add: generate_loop.simps)

text \<open>
  What holds of a length of at most 0: the loop of \<open>generateValidationCode\<close> does not
  run and the result is the empty string (the function is total, its loop
  terminating for every length), and an entry built with a negative \<open>codeLength\<close> has
  the empty code and is not validated.
\<close>

lemma generateValidationCode_nonpositive:
  "(len \<le> 0 \<longrightarrow> generateValidationCode rnd (Some len) = '''')
   \<and> (len < 0 \<and> codeLength opts = Some len \<longrightarrow>
        code (createValidation t1 rnd t2 ty (Some opts) False) = ''''
        \<and> \<not> validated (createValidation t1 rnd t2 ty (Some opts) False))"
  by (auto simp: generateValidationCode_def generate_loop_done createValidation_def option_or_def)

text \<open>The length \<open>-2\<close>, given to the generator and as the \<open>codeLength\<close> of a request.\<close>

lemma generateValidationCode_negative_instance:
  "generateValidationCode (digits 7) (Some (- 2)) = ''''
   \<and> code (createValidation 10 (digits 7) 10 ''email'' (Some (no_options\<lparr>codeLength := Some (- 2)\<rparr>)) False) = ''''
   \<and> \<not> validated (createValidation 10 (digits 7) 10 ''email'' (Some (no_options\<lparr>codeLength := Some (- 2)\<rparr>)) False)"
  using generateValidationCode_nonpositive
    [of "- 2" "digits 7" "no_options\<lparr>codeLength := Some (- 2)\<rparr>" 10 10 "''email''"]
  by (simp add: no_options_def)

text \<open>
  Claim C10 says that the generator returns the empty string for every length of at
  most 0 and that an entry built with such a length has the empty code while not
  validated. The generator does so, and so does an entry built with a negative
  \<open>codeLength\<close>. At \<open>codeLength = 0\<close> the code departs from the claim: \<open>createValidation\<close>
  reads the option with \<open>||\<close>, takes \<open>0\<close> for an absent value and calls the generator
  with the default 6, so the entry, not validated, gets a code of six digits although
  the generator, given \<open>0\<close>, returns the empty string. It is the defect of claim C5.
\<close>

theorem createValidation_codeLength_zero:
  "generateValidationCode (digits 7) (Some 0) = ''''
   \<and> code (createValidation 10 (digits 7) 10 ''email'' (Some (no_options\<lparr>codeLength := Some 0\<rparr>)) False)
       = ''777777''
   \<and> \<not> validated (createValidation 10 (digits 7) 10 ''email'' (Some (no_options\<lparr>codeLength := Some 0\<rparr>)) False)"
proof -
  have "generateValidationCode (digits 7) (Some 6) = ''777777''" by code_simp
  moreover have "generateValidationCode (digits 7) (Some 0) = ''''"
    by (simp add: generateValidationCode_def generate_loop_done)
  ultimately show ?thesis
    by (simp add: createValidation_def option_or_def defaultConfig_def no_options_def)
qed


section \<open>The pre-save hook\<close>

lemma findIndex_SomeI:
  "i < length xs \<Longrightarrow> P (xs ! i) \<Longrightarrow> (\<forall>j<i. \<not> P (xs ! j)) \<Longrightarrow> findIndex P xs = Some i"
proof (induction xs arbitrary: i)
  case Nil
  then show ?case by simp
next
  case (Cons x xs)
  show ?case
  proof (cases i)
    case 0
    with Cons.prems show ?thesis by simp
  next
    case (Suc k)
    with Cons.prems have "\<not> P x" by auto
    moreover from Cons.prems Suc have "k < length xs" "P (xs ! k)" "\<forall>j<k. \<not> P (xs ! j)"
      by auto
    ultimately show ?thesis using Cons.IH [of k] Suc by simp
  qed
qed

lemma findIndex_append_None:
  "findIndex P xs = None \<Longrightarrow> P y \<Longrightarrow> findIndex P (xs @ [y]) = Some (length xs)"
  by (induction xs) (auto split: if_splits)

lemma findIndex_append_other:
  "\<not> P y \<Longrightarrow> findIndex P (xs @ [y]) = findIndex P xs"
  by (induction xs) auto

subsection \<open>confirmed_only\<close>

lemma confirmed_only_refl: "confirmed_only vs vs"
  by (simp add: confirmed_only_def)

lemma confirmed_only_trans:
  assumes "confirmed_only vs vs'" "confirmed_only vs' vs''"
  shows "confirmed_only vs vs''"
  unfolding confirmed_only_def
proof (intro conjI allI impI)
  from assms show "length vs \<le> length vs''" by (simp add: confirmed_only_def)
next
  fix j assume j: "j < length vs"
  with assms have j': "j < length vs'" by (simp add: confirmed_only_def)
  from assms(1) j have a: "vs' ! j = vs ! j \<or> vs' ! j = (vs ! j)\<lparr>validated := True\<rparr>"
    by (simp add: confirmed_only_def)
  from assms(2) j' have b: "vs'' ! j = vs' ! j \<or> vs'' ! j = (vs' ! j)\<lparr>validated := True\<rparr>"
    by (simp add: confirmed_only_def)
  from a b show "vs'' ! j = vs ! j \<or> vs'' ! j = (vs ! j)\<lparr>validated := True\<rparr>"
    by auto
qed

lemma confirmed_only_append: "confirmed_only vs (vs @ ys)"
  by (simp add: confirmed_only_def nth_append)

lemma nth_update_cases:
  "j < length xs \<Longrightarrow> xs[i := y] ! j = (if j = i then y else xs ! j)"
  by (cases "j = i") simp_all

lemma confirmed_only_flip: "confirmed_only vs (vs[i := (vs ! i)\<lparr>validated := True\<rparr>])"
  by (simp add: confirmed_only_def nth_update_cases)

lemma confirmed_only_nth:
  assumes "confirmed_only vs vs'" "j < length vs"
  shows "type (vs' ! j) = type (vs ! j)"
    and "tries (vs' ! j) = tries (vs ! j)"
    and "validated (vs ! j) \<Longrightarrow> vs' ! j = vs ! j"
    and "validated (vs' ! j) \<Longrightarrow> vs' ! j = (vs ! j)\<lparr>validated := True\<rparr>"
proof -
  from assms have a: "vs' ! j = vs ! j \<or> vs' ! j = (vs ! j)\<lparr>validated := True\<rparr>"
    by (simp add: confirmed_only_def)
  then show "type (vs' ! j) = type (vs ! j)" by auto
  from a show "tries (vs' ! j) = tries (vs ! j)" by auto
  from a show "vs' ! j = vs ! j" if "validated (vs ! j)" using that by auto
  from a show "vs' ! j = (vs ! j)\<lparr>validated := True\<rparr>" if "validated (vs' ! j)"
    using that by auto
qed

lemma findIndex_confirmed_only:
  assumes co: "confirmed_only vs vs'"
    and found: "findIndex (\<lambda>v. type v = k) vs = Some i"
  shows "findIndex (\<lambda>v. type v = k) vs' = Some i"
proof (rule findIndex_SomeI)
  from findIndex_SomeD [OF found]
  have i: "i < length vs" "type (vs ! i) = k" "\<forall>j<i. type (vs ! j) \<noteq> k" by auto
  from co i(1) show "i < length vs'" by (simp add: confirmed_only_def)
  from confirmed_only_nth(1) [OF co i(1)] i(2) show "type (vs' ! i) = k" by simp
  show "\<forall>j<i. type (vs' ! j) \<noteq> k"
  proof (intro allI impI)
    fix j assume "j < i"
    with i have "j < length vs" "type (vs ! j) \<noteq> k" by auto
    with confirmed_only_nth(1) [OF co, of j] show "type (vs' ! j) \<noteq> k" by simp
  qed
qed

subsection \<open>One block of the hook\<close>

lemma createValidation_preconfirmed:
  "createValidation t rnd t' ty options True = preconfirmed ty t"
  by (simp add: createValidation_def preconfirmed_def)

lemma autoValidate_cases:
  obtains
    (skip) "autoValidate clk (vs, hc) (ty, req) = (vs, hc)"
      "req \<or> (\<exists>i. findIndex (\<lambda>v. type v = ty) vs = Some i \<and> validated (vs ! i))"
  | (push) "\<not> req" "findIndex (\<lambda>v. type v = ty) vs = None"
      "autoValidate clk (vs, hc) (ty, req) = (vs @ [preconfirmed ty (clk ty)], True)"
  | (flip) i where "\<not> req" "findIndex (\<lambda>v. type v = ty) vs = Some i" "\<not> validated (vs ! i)"
      "autoValidate clk (vs, hc) (ty, req) = (vs[i := (vs ! i)\<lparr>validated := True\<rparr>], True)"
proof (cases req)
  case True
  then show ?thesis using skip by (simp add: autoValidate_def)
next
  case False
  show ?thesis
  proof (cases "findIndex (\<lambda>v. type v = ty) vs")
    case None
    with False show ?thesis
      using push by (simp add: autoValidate_def createValidation_preconfirmed)
  next
    case (Some i)
    with False show ?thesis
      using skip flip [of i] by (cases "validated (vs ! i)") (simp_all add: autoValidate_def)
  qed
qed

lemma autoValidate_step:
  assumes "autoValidate clk (vs, hc) (ty, req) = (vs1, hc1)"
  shows "confirmed_only vs vs1"
    and "hc \<longrightarrow> hc1"
    and "\<not> hc1 \<longrightarrow> vs1 = vs"
    and "\<forall>j<length vs. (type (vs ! j), False) \<noteq> (ty, req) \<longrightarrow> vs1 ! j = vs ! j"
proof -
  have "confirmed_only vs vs1 \<and> (hc \<longrightarrow> hc1) \<and> (\<not> hc1 \<longrightarrow> vs1 = vs)
      \<and> (\<forall>j<length vs. (type (vs ! j), False) \<noteq> (ty, req) \<longrightarrow> vs1 ! j = vs ! j)"
  proof (cases rule: autoValidate_cases [of clk vs hc ty req])
    case skip
    with assms show ?thesis by (simp add: confirmed_only_refl)
  next
    case push
    with assms show ?thesis by (auto simp: confirmed_only_append nth_append)
  next
    case (flip i)
    from findIndex_SomeD [OF flip(2)] have "type (vs ! i) = ty" by simp
    with flip assms show ?thesis by (auto simp: confirmed_only_flip nth_update_cases)
  qed
  then show "confirmed_only vs vs1" "hc \<longrightarrow> hc1" "\<not> hc1 \<longrightarrow> vs1 = vs"
    "\<forall>j<length vs. (type (vs ! j), False) \<noteq> (ty, req) \<longrightarrow> vs1 ! j = vs ! j"
    by blast+
qed

lemma autoValidate_findIndex_None:
  assumes "autoValidate clk (vs, hc) (ty, req) = (vs1, hc1)"
    and "findIndex (\<lambda>v. type v = k) vs = None" and "ty \<noteq> k"
  shows "findIndex (\<lambda>v. type v = k) vs1 = None"
proof (cases rule: autoValidate_cases [of clk vs hc ty req])
  case skip
  with assms show ?thesis by simp
next
  case push
  with assms show ?thesis by (simp add: findIndex_append_other preconfirmed_def)
next
  case (flip i)
  from findIndex_SomeD [OF flip(2)] have i: "i < length vs" by simp
  have "findIndex (\<lambda>v. type v = k) (vs[i := (vs ! i)\<lparr>validated := True\<rparr>])
      = findIndex (\<lambda>v. type v = k) vs"
    by (rule findIndex_update_same) (use i in simp_all)
  with flip assms show ?thesis by simp
qed

subsection \<open>The four blocks\<close>

lemma foldl_autoValidate:
  assumes "foldl (autoValidate clk) (vs, hc) bs = (vs', hc')"
  shows "confirmed_only vs vs'"
    and "hc \<longrightarrow> hc'"
    and "\<not> hc' \<longrightarrow> vs' = vs"
    and "\<forall>j<length vs. (type (vs ! j), False) \<notin> set bs \<longrightarrow> vs' ! j = vs ! j"
proof -
  have "confirmed_only vs vs' \<and> (hc \<longrightarrow> hc') \<and> (\<not> hc' \<longrightarrow> vs' = vs)
      \<and> (\<forall>j<length vs. (type (vs ! j), False) \<notin> set bs \<longrightarrow> vs' ! j = vs ! j)"
    using assms
  proof (induction bs arbitrary: vs hc)
    case Nil
    then show ?case by (simp add: confirmed_only_refl)
  next
    case (Cons b bs)
    obtain ty req where b: "b = (ty, req)" by (cases b)
    obtain vs1 hc1 where s: "autoValidate clk (vs, hc) (ty, req) = (vs1, hc1)"
      by (cases "autoValidate clk (vs, hc) (ty, req)")
    with Cons.prems b have rest: "foldl (autoValidate clk) (vs1, hc1) bs = (vs', hc')" by simp
    note st = autoValidate_step [OF s]
    note ih = Cons.IH [OF rest]
    have "confirmed_only vs vs'" using st(1) ih by (blast intro: confirmed_only_trans)
    moreover have "hc \<longrightarrow> hc'" using st(2) ih by blast
    moreover have "\<not> hc' \<longrightarrow> vs' = vs" using st(2,3) ih by blast
    moreover have "\<forall>j<length vs. (type (vs ! j), False) \<notin> set (b # bs) \<longrightarrow> vs' ! j = vs ! j"
    proof (intro allI impI)
      fix j assume j: "j < length vs" and out: "(type (vs ! j), False) \<notin> set (b # bs)"
      from out b have "(type (vs ! j), False) \<noteq> (ty, req)" by auto
      with st(4) j have same: "vs1 ! j = vs ! j" by blast
      from st(1) j have "j < length vs1" by (simp add: confirmed_only_def)
      moreover from out same have "(type (vs1 ! j), False) \<notin> set bs" by simp
      ultimately have "vs' ! j = vs1 ! j" using ih by blast
      with same show "vs' ! j = vs ! j" by simp
    qed
    ultimately show ?case by blast
  qed
  then show "confirmed_only vs vs'" "hc \<longrightarrow> hc'" "\<not> hc' \<longrightarrow> vs' = vs"
    "\<forall>j<length vs. (type (vs ! j), False) \<notin> set bs \<longrightarrow> vs' ! j = vs ! j"
    by blast+
qed

lemma foldl_autoValidate_confirms:
  assumes "foldl (autoValidate clk) (vs, hc) bs = (vs', hc')"
    and "(k, False) \<in> set bs"
    and "findIndex (\<lambda>v. type v = k) vs = Some i"
  shows "validated (vs' ! i)"
  using assms
proof (induction bs arbitrary: vs hc)
  case Nil
  then show ?case by simp
next
  case (Cons b bs)
  obtain ty req where b: "b = (ty, req)" by (cases b)
  obtain vs1 hc1 where s: "autoValidate clk (vs, hc) (ty, req) = (vs1, hc1)"
    by (cases "autoValidate clk (vs, hc) (ty, req)")
  with Cons.prems b have rest: "foldl (autoValidate clk) (vs1, hc1) bs = (vs', hc')" by simp
  note st = autoValidate_step [OF s]
  note fr = foldl_autoValidate [OF rest]
  from findIndex_SomeD [OF Cons.prems(3)] have i: "i < length vs" by simp
  from findIndex_confirmed_only [OF st(1) Cons.prems(3)]
  have found1: "findIndex (\<lambda>v. type v = k) vs1 = Some i" .
  from st(1) i have i1: "i < length vs1" by (simp add: confirmed_only_def)
  show ?case
  proof (cases "b = (k, False)")
    case True
    with b have tk: "ty = k" "\<not> req" by simp_all
    have "validated (vs1 ! i)"
    proof (cases rule: autoValidate_cases [of clk vs hc ty req])
      case skip
      with tk Cons.prems(3) s show ?thesis by simp
    next
      case push
      with tk Cons.prems(3) show ?thesis by simp
    next
      case (flip i')
      with tk Cons.prems(3) s i show ?thesis by simp
    qed
    with confirmed_only_nth(3) [OF fr(1) i1] show ?thesis by simp
  next
    case False
    with Cons.prems(2) have "(k, False) \<in> set bs" by simp
    from Cons.IH [OF rest this found1] show ?thesis .
  qed
qed

lemma foldl_autoValidate_pushes:
  assumes "foldl (autoValidate clk) (vs, hc) bs = (vs', hc')"
    and "(k, False) \<in> set bs"
    and "findIndex (\<lambda>v. type v = k) vs = None"
  shows "\<exists>j. length vs \<le> j \<and> findIndex (\<lambda>v. type v = k) vs' = Some j
            \<and> vs' ! j = preconfirmed k (clk k)"
  using assms
proof (induction bs arbitrary: vs hc)
  case Nil
  then show ?case by simp
next
  case (Cons b bs)
  obtain ty req where b: "b = (ty, req)" by (cases b)
  obtain vs1 hc1 where s: "autoValidate clk (vs, hc) (ty, req) = (vs1, hc1)"
    by (cases "autoValidate clk (vs, hc) (ty, req)")
  with Cons.prems b have rest: "foldl (autoValidate clk) (vs1, hc1) bs = (vs', hc')" by simp
  note st = autoValidate_step [OF s]
  note fr = foldl_autoValidate [OF rest]
  show ?case
  proof (cases "ty = k")
    case same: True
    show ?thesis
    proof (cases req)
      case True
      with s have "vs1 = vs" by (simp add: autoValidate_def)
      moreover from True same b Cons.prems(2) have "(k, False) \<in> set bs" by auto
      ultimately show ?thesis using Cons.IH [OF rest] Cons.prems(3) by simp
    next
      case False
      with same Cons.prems(3) s have vs1: "vs1 = vs @ [preconfirmed k (clk k)]"
        by (simp add: autoValidate_def createValidation_preconfirmed)
      have f1: "findIndex (\<lambda>v. type v = k) vs1 = Some (length vs)"
        unfolding vs1 by (rule findIndex_append_None [OF Cons.prems(3)]) (simp add: preconfirmed_def)
      from findIndex_confirmed_only [OF fr(1) f1]
      have f': "findIndex (\<lambda>v. type v = k) vs' = Some (length vs)" .
      have "length vs < length vs1" "validated (vs1 ! length vs)"
        by (simp_all add: vs1 preconfirmed_def)
      from confirmed_only_nth(3) [OF fr(1) this]
      have "vs' ! length vs = preconfirmed k (clk k)" by (simp add: vs1)
      with f' show ?thesis by blast
    qed
  next
    case False
    with b Cons.prems(2) have mem: "(k, False) \<in> set bs" by auto
    from autoValidate_findIndex_None [OF s Cons.prems(3) False]
    have "findIndex (\<lambda>v. type v = k) vs1 = None" .
    from Cons.IH [OF rest mem this] obtain j
      where j: "length vs1 \<le> j" "findIndex (\<lambda>v. type v = k) vs' = Some j"
        "vs' ! j = preconfirmed k (clk k)" by blast
    from st(1) have "length vs \<le> length vs1" by (simp add: confirmed_only_def)
    with j show ?thesis by (intro exI [of _ j]) simp
  qed
qed

lemma auto_blocks_disabled:
  "(k, False) \<in> set (auto_blocks pluginConfig) \<longleftrightarrow>
     k = ''email'' \<and> \<not> EMAIL_VALIDATION pluginConfig
   \<or> k = ''phone'' \<and> \<not> PHONE_VALIDATION pluginConfig
   \<or> k = ''identity'' \<and> \<not> IDENTITY_VALIDATION pluginConfig
   \<or> k = ''address'' \<and> \<not> ADDRESS_VALIDATION pluginConfig"
  by (auto simp: auto_blocks_def)

lemma preSave_new:
  assumes "ENABLED pluginConfig" "isNew doc"
    and "foldl (autoValidate clk) (currentValidations doc, False) (auto_blocks pluginConfig) = (vs', hc')"
  shows "preSave pluginConfig clk doc = (hc', if hc' then doc\<lparr>validations := Some vs'\<rparr> else doc)"
  using assms by (simp add: preSave_def)

lemma preSave_effect:
  "snd (preSave pluginConfig clk doc) = doc
   \<or> (\<exists>vs'. snd (preSave pluginConfig clk doc) = doc\<lparr>validations := Some vs'\<rparr>
          \<and> confirmed_only (currentValidations doc) vs')"
proof (cases "ENABLED pluginConfig \<and> isNew doc")
  case False
  then show ?thesis by (auto simp: preSave_def)
next
  case True
  obtain vs' hc' where f:
    "foldl (autoValidate clk) (currentValidations doc, False) (auto_blocks pluginConfig) = (vs', hc')"
    by (cases "foldl (autoValidate clk) (currentValidations doc, False) (auto_blocks pluginConfig)")
  from True preSave_new [OF _ _ f] foldl_autoValidate(1) [OF f]
  show ?thesis by (cases hc') auto
qed

text \<open>
  Claim C7, as amended. Let \<open>ENABLED\<close> be true and the document new. For a kind whose
  flag in the configuration is false and of which the document has no entry, the hook
  pushes, behind the entries there were, the entry with \<open>validated = true\<close>, the empty
  code, no \<open>expire_at\<close>, \<open>tries = 0\<close> and \<open>resends = 0\<close>; it is the first entry of the
  kind afterwards, \<open>hasChanges\<close> ends true, and the entries there were keep their
  places and all their fields but \<open>validated\<close>. The claim as stated, for every
  configuration with the flag false, fails when \<open>ENABLED\<close> is false: the hook returns
  before its blocks.
\<close>

theorem preSave_pushes_preconfirmed:
  fixes doc :: "'m IValidatable"
  assumes enabled: "ENABLED pluginConfig"
    and new: "isNew doc"
    and disabled: "(k, False) \<in> set (auto_blocks pluginConfig)"
    and absent: "findIndex (\<lambda>v. type v = k) (currentValidations doc) = None"
  shows "\<exists>vs' j. preSave pluginConfig clk doc = (True, doc\<lparr>validations := Some vs'\<rparr>)
           \<and> length (currentValidations doc) \<le> j
           \<and> findIndex (\<lambda>v. type v = k) vs' = Some j
           \<and> vs' ! j = \<lparr>type = k, validated = True, code = '''', resends = 0, created = clk k,
                         last_try = None, tries = 0, expire_at = None, metadata = None\<rparr>
           \<and> (\<forall>i<length (currentValidations doc).
                 vs' ! i = currentValidations doc ! i
                 \<or> vs' ! i = (currentValidations doc ! i)\<lparr>validated := True\<rparr>)"
proof -
  obtain vs' hc' where f:
    "foldl (autoValidate clk) (currentValidations doc, False) (auto_blocks pluginConfig) = (vs', hc')"
    by (cases "foldl (autoValidate clk) (currentValidations doc, False) (auto_blocks pluginConfig)")
  from foldl_autoValidate_pushes [OF f disabled absent] obtain j
    where j: "length (currentValidations doc) \<le> j" "findIndex (\<lambda>v. type v = k) vs' = Some j"
      "vs' ! j = preconfirmed k (clk k)" by blast
  from j(2) absent have "vs' \<noteq> currentValidations doc" by auto
  with foldl_autoValidate(3) [OF f] have hc': "hc'" by blast
  with preSave_new [OF enabled new f]
  have "preSave pluginConfig clk doc = (True, doc\<lparr>validations := Some vs'\<rparr>)" by simp
  moreover from foldl_autoValidate(1) [OF f]
  have "\<forall>i<length (currentValidations doc).
          vs' ! i = currentValidations doc ! i
          \<or> vs' ! i = (currentValidations doc ! i)\<lparr>validated := True\<rparr>"
    by (simp add: confirmed_only_def)
  ultimately show ?thesis using j by (auto simp: preconfirmed_def)
qed

text \<open>\<open>EMAIL_VALIDATION = false\<close> on a new document that holds one phone entry.\<close>

theorem preSave_pushes_preconfirmed_witness:
  "preSave (defaultConfig\<lparr>EMAIL_VALIDATION := False\<rparr>) (clock_at 10) (document [pending ''phone'' ''2222'' 1 100])
     = (True, document [pending ''phone'' ''2222'' 1 100,
          \<lparr>type = ''email'', validated = True, code = '''', resends = 0, created = 10,
           last_try = None, tries = 0, expire_at = None, metadata = None\<rparr>])
   \<and> (\<exists>vs' j. preSave (defaultConfig\<lparr>EMAIL_VALIDATION := False\<rparr>) (clock_at 10)
                  (document [pending ''phone'' ''2222'' 1 100])
                = (True, (document [pending ''phone'' ''2222'' 1 100])\<lparr>validations := Some vs'\<rparr>)
         \<and> 1 \<le> j
         \<and> findIndex (\<lambda>v. type v = ''email'') vs' = Some j
         \<and> vs' ! j = \<lparr>type = ''email'', validated = True, code = '''', resends = 0, created = 10,
                       last_try = None, tries = 0, expire_at = None, metadata = None\<rparr>)"
proof -
  let ?cfg = "defaultConfig\<lparr>EMAIL_VALIDATION := False\<rparr>"
  let ?d = "document [pending ''phone'' ''2222'' 1 100]"
  have en: "ENABLED ?cfg" by (simp add: defaultConfig_def)
  have nw: "isNew ?d" by (simp add: document_def)
  have dis: "(''email'', False) \<in> set (auto_blocks ?cfg)" by (simp add: auto_blocks_def)
  have ab: "findIndex (\<lambda>v. type v = ''email'') (currentValidations ?d) = None"
    by (simp add: document_def pending_def currentValidations_def)
  have val: "preSave ?cfg (clock_at 10) ?d
     = (True, document [pending ''phone'' ''2222'' 1 100,
          \<lparr>type = ''email'', validated = True, code = '''', resends = 0, created = 10,
           last_try = None, tries = 0, expire_at = None, metadata = None\<rparr>])"
    by (simp add: preSave_def auto_blocks_def autoValidate_def createValidation_def
        defaultConfig_def document_def pending_def currentValidations_def)
  from preSave_pushes_preconfirmed [OF en nw dis ab, of "clock_at 10"]
  have "\<exists>vs' j. preSave ?cfg (clock_at 10) ?d = (True, ?d\<lparr>validations := Some vs'\<rparr>)
         \<and> 1 \<le> j
         \<and> findIndex (\<lambda>v. type v = ''email'') vs' = Some j
         \<and> vs' ! j = \<lparr>type = ''email'', validated = True, code = '''', resends = 0, created = 10,
                       last_try = None, tries = 0, expire_at = None, metadata = None\<rparr>"
    by (simp add: document_def currentValidations_def) blast
  with val show ?thesis by blast
qed

text \<open>
  Claim C7 as stated fails here: \<open>EMAIL_VALIDATION\<close> is false and there is no email entry,
  but \<open>ENABLED\<close> is false too, and the hook changes nothing and \<open>hasChanges\<close> is not set.
\<close>

theorem preSave_disabled_plugin_counterexample:
  "(''email'', False) \<in> set (auto_blocks (defaultConfig\<lparr>ENABLED := False, EMAIL_VALIDATION := False\<rparr>))
   \<and> currentValidations (document []) = []
   \<and> preSave (defaultConfig\<lparr>ENABLED := False, EMAIL_VALIDATION := False\<rparr>) (clock_at 10) (document [])
       = (False, document [])"
  by (simp add: preSave_def auto_blocks_def defaultConfig_def document_def currentValidations_def)

text \<open>
  Claim C8, as amended. Let \<open>ENABLED\<close> be true and the document new. For a kind whose
  flag is false and whose first entry is not validated, the hook sets \<open>validated\<close> on
  that entry and leaves its other fields (\<open>code\<close>, \<open>expire_at\<close>, \<open>tries\<close>, \<open>resends\<close>,
  \<open>created\<close>, \<open>last_try\<close>, \<open>metadata\<close>) as they were; every entry there was keeps its
  place and is either unchanged or changed in \<open>validated\<close> alone; and an entry of a kind
  whose flag is not false is unchanged. The claim as stated fails when \<open>ENABLED\<close> is
  false, and when the flag of another kind is false as well: the unvalidated entry of
  that other kind is set to validated in the same run.
\<close>

theorem preSave_confirms_existing:
  fixes doc :: "'m IValidatable"
  assumes enabled: "ENABLED pluginConfig"
    and new: "isNew doc"
    and disabled: "(k, False) \<in> set (auto_blocks pluginConfig)"
    and found: "findIndex (\<lambda>v. type v = k) (currentValidations doc) = Some i"
    and unconfirmed: "\<not> validated (currentValidations doc ! i)"
  shows "\<exists>vs'. preSave pluginConfig clk doc = (True, doc\<lparr>validations := Some vs'\<rparr>)
           \<and> vs' ! i = (currentValidations doc ! i)\<lparr>validated := True\<rparr>
           \<and> length (currentValidations doc) \<le> length vs'
           \<and> (\<forall>j<length (currentValidations doc).
                 vs' ! j = currentValidations doc ! j
                 \<or> vs' ! j = (currentValidations doc ! j)\<lparr>validated := True\<rparr>)
           \<and> (\<forall>j<length (currentValidations doc).
                 (type (currentValidations doc ! j), False) \<notin> set (auto_blocks pluginConfig)
                 \<longrightarrow> vs' ! j = currentValidations doc ! j)"
proof -
  obtain vs' hc' where f:
    "foldl (autoValidate clk) (currentValidations doc, False) (auto_blocks pluginConfig) = (vs', hc')"
    by (cases "foldl (autoValidate clk) (currentValidations doc, False) (auto_blocks pluginConfig)")
  note fr = foldl_autoValidate [OF f]
  from findIndex_SomeD [OF found] have i: "i < length (currentValidations doc)" by simp
  from foldl_autoValidate_confirms [OF f disabled found] have v: "validated (vs' ! i)" .
  from confirmed_only_nth(4) [OF fr(1) i v]
  have flipped: "vs' ! i = (currentValidations doc ! i)\<lparr>validated := True\<rparr>" .
  from v unconfirmed have "vs' \<noteq> currentValidations doc" by auto
  with fr(3) have "hc'" by blast
  with preSave_new [OF enabled new f]
  have "preSave pluginConfig clk doc = (True, doc\<lparr>validations := Some vs'\<rparr>)" by simp
  with flipped fr(1) fr(4) show ?thesis by (auto simp: confirmed_only_def)
qed

text \<open>
  \<open>EMAIL_VALIDATION = false\<close> on a new document with a phone entry and a pending email
  entry: the email entry is set to validated, the phone entry is as it was.
\<close>

theorem preSave_confirms_existing_witness:
  "preSave (defaultConfig\<lparr>EMAIL_VALIDATION := False\<rparr>) (clock_at 10)
       (document [pending ''phone'' ''2222'' 1 100, pending ''email'' ''123456'' 2 100])
     = (True, document [pending ''phone'' ''2222'' 1 100,
                        (pending ''email'' ''123456'' 2 100)\<lparr>validated := True\<rparr>])"
proof -
  let ?cfg = "defaultConfig\<lparr>EMAIL_VALIDATION := False\<rparr>"
  let ?d = "document [pending ''phone'' ''2222'' 1 100, pending ''email'' ''123456'' 2 100]"
  have en: "ENABLED ?cfg" by (simp add: defaultConfig_def)
  have nw: "isNew ?d" by (simp add: document_def)
  have dis: "(''email'', False) \<in> set (auto_blocks ?cfg)" by (simp add: auto_blocks_def)
  have cv: "currentValidations ?d = [pending ''phone'' ''2222'' 1 100, pending ''email'' ''123456'' 2 100]"
    by (simp add: document_def currentValidations_def)
  have fi: "findIndex (\<lambda>v. type v = ''email'') (currentValidations ?d) = Some 1"
    by (simp add: document_def currentValidations_def pending_def)
  have un: "\<not> validated (currentValidations ?d ! 1)"
    by (simp add: document_def currentValidations_def pending_def)
  have keep: "(type (currentValidations ?d ! 0), False) \<notin> set (auto_blocks ?cfg)"
    by (simp add: document_def currentValidations_def pending_def auto_blocks_def defaultConfig_def)
  from preSave_confirms_existing [OF en nw dis fi un, of "clock_at 10"] obtain vs'
    where r: "preSave ?cfg (clock_at 10) ?d = (True, ?d\<lparr>validations := Some vs'\<rparr>)"
      and one: "vs' ! 1 = (currentValidations ?d ! 1)\<lparr>validated := True\<rparr>"
      and zero: "vs' ! 0 = currentValidations ?d ! 0"
    using keep by (auto simp: cv)
  have "preSave ?cfg (clock_at 10) ?d
     = (True, document [pending ''phone'' ''2222'' 1 100,
                        (pending ''email'' ''123456'' 2 100)\<lparr>validated := True\<rparr>])"
    by (simp add: preSave_def auto_blocks_def autoValidate_def
        defaultConfig_def document_def pending_def currentValidations_def)
  with r one zero show ?thesis by simp
qed

text \<open>
  Claim C8 as stated fails in both ways: with \<open>ENABLED\<close> false the pending email entry
  stays pending; with the flags of email and phone both false the phone entry, of
  another kind than email, is changed.
\<close>

theorem preSave_frame_counterexample:
  "preSave (defaultConfig\<lparr>ENABLED := False, EMAIL_VALIDATION := False\<rparr>) (clock_at 10)
       (document [pending ''email'' ''123456'' 2 100])
     = (False, document [pending ''email'' ''123456'' 2 100])
   \<and> preSave (defaultConfig\<lparr>EMAIL_VALIDATION := False, PHONE_VALIDATION := False\<rparr>) (clock_at 10)
       (document [pending ''email'' ''123456'' 2 100, pending ''phone'' ''2222'' 1 100])
     = (True, document [(pending ''email'' ''123456'' 2 100)\<lparr>validated := True\<rparr>,
                        (pending ''phone'' ''2222'' 1 100)\<lparr>validated := True\<rparr>])"
  by (simp add: preSave_def auto_blocks_def autoValidate_def
      defaultConfig_def document_def pending_def currentValidations_def)

section \<open>The attempt counter\<close>

lemma validateCode_effect:
  "snd (validateCode pluginConfig t_check t_try ty submitted doc) = doc
   \<or> (\<exists>i w. i < length (currentValidations doc)
         \<and> snd (validateCode pluginConfig t_check t_try ty submitted doc)
             = doc\<lparr>validations := Some ((currentValidations doc)[i := w])\<rparr>
         \<and> type w = type (currentValidations doc ! i)
         \<and> tries w = tries (currentValidations doc ! i) + 1)"
proof (cases "findIndex (\<lambda>v. type v = ty) (currentValidations doc)")
  case None
  then show ?thesis by (simp add: validateCode_def)
next
  case (Some i)
  let ?vs = "currentValidations doc"
  let ?counted = "(?vs ! i)\<lparr>tries := tries (?vs ! i) + 1, last_try := Some t_try\<rparr>"
  from findIndex_SomeD [OF Some] have i: "i < length ?vs" by simp
  from Some have "snd (validateCode pluginConfig t_check t_try ty submitted doc) = doc
      \<or> snd (validateCode pluginConfig t_check t_try ty submitted doc)
          = doc\<lparr>validations := Some (?vs[i := ?counted])\<rparr>
      \<or> snd (validateCode pluginConfig t_check t_try ty submitted doc)
          = doc\<lparr>validations := Some (?vs[i := ?counted\<lparr>validated := True\<rparr>])\<rparr>"
    by (simp add: validateCode_def Let_def)
  then consider
      (same) "snd (validateCode pluginConfig t_check t_try ty submitted doc) = doc"
    | (counted) "snd (validateCode pluginConfig t_check t_try ty submitted doc)
          = doc\<lparr>validations := Some (?vs[i := ?counted])\<rparr>"
    | (confirmed) "snd (validateCode pluginConfig t_check t_try ty submitted doc)
          = doc\<lparr>validations := Some (?vs[i := ?counted\<lparr>validated := True\<rparr>])\<rparr>"
    by blast
  then show ?thesis
  proof cases
    case same
    then show ?thesis by simp
  next
    case counted
    with i show ?thesis
      by (intro disjI2 exI [of _ i] exI [of _ ?counted]) simp
  next
    case confirmed
    with i show ?thesis
      by (intro disjI2 exI [of _ i] exI [of _ "?counted\<lparr>validated := True\<rparr>"]) simp
  qed
qed

lemma perform_tries:
  assumes "i < length (currentValidations doc)"
  shows "i < length (currentValidations (perform pluginConfig doc c))
       \<and> type (currentValidations (perform pluginConfig doc c) ! i) = type (currentValidations doc ! i)
       \<and> tries (currentValidations doc ! i) \<le> tries (currentValidations (perform pluginConfig doc c) ! i)"
proof (cases c)
  case (ValidateCode t_check t_try ty submitted)
  from validateCode_effect [of pluginConfig t_check t_try ty submitted doc] assms ValidateCode
  show ?thesis by (auto simp: nth_update_cases)
next
  case (PreSave clk)
  from preSave_effect [of pluginConfig clk doc]
  show ?thesis
  proof
    assume "snd (preSave pluginConfig clk doc) = doc"
    with PreSave show ?thesis using assms by simp
  next
    assume "\<exists>vs'. snd (preSave pluginConfig clk doc) = doc\<lparr>validations := Some vs'\<rparr>
          \<and> confirmed_only (currentValidations doc) vs'"
    then obtain vs' where r: "snd (preSave pluginConfig clk doc) = doc\<lparr>validations := Some vs'\<rparr>"
      and co: "confirmed_only (currentValidations doc) vs'" by blast
    from co assms have "i < length vs'" by (simp add: confirmed_only_def)
    with confirmed_only_nth(1,2) [OF co assms] PreSave r show ?thesis by simp
  qed
qed

lemma run_tries:
  assumes "i < length (currentValidations doc)"
  shows "i < length (currentValidations (run pluginConfig calls doc))
       \<and> type (currentValidations (run pluginConfig calls doc) ! i) = type (currentValidations doc ! i)
       \<and> tries (currentValidations doc ! i) \<le> tries (currentValidations (run pluginConfig calls doc) ! i)"
  using assms unfolding run_def
proof (induction calls arbitrary: doc)
  case Nil
  then show ?case by simp
next
  case (Cons c calls)
  from perform_tries [OF Cons.prems, of pluginConfig c]
  have s: "i < length (currentValidations (perform pluginConfig doc c))"
    "type (currentValidations (perform pluginConfig doc c) ! i) = type (currentValidations doc ! i)"
    "tries (currentValidations doc ! i) \<le> tries (currentValidations (perform pluginConfig doc c) ! i)"
    by simp_all
  from Cons.IH [OF s(1)] s(2,3) show ?case by simp
qed

text \<open>
  Claim C9. Through every sequence of \<open>validateCode\<close> calls and runs of the hook, every
  entry of the document stays at its index with its kind, and its \<open>tries\<close> is never
  less than before. An entry with \<open>tries = 0\<close> comes from \<open>createValidationRequest\<close>,
  whose new entry, the last of the array, starts at 0.
\<close>

theorem tries_never_decrease:
  fixes doc :: "'m IValidatable"
  shows "(\<forall>i<length (currentValidations doc).
            i < length (currentValidations (run pluginConfig calls doc))
            \<and> type (currentValidations (run pluginConfig calls doc) ! i) = type (currentValidations doc ! i)
            \<and> tries (currentValidations doc ! i) \<le> tries (currentValidations (run pluginConfig calls doc) ! i))
       \<and> tries (fst (createValidationRequest t1 rnd t2 ty options doc)) = 0
       \<and> last (currentValidations (snd (createValidationRequest t1 rnd t2 ty options doc)))
           = fst (createValidationRequest t1 rnd t2 ty options doc)"
proof -
  obtain e doc' where r: "createValidationRequest t1 rnd t2 ty options doc = (e, doc')"
    by (cases "createValidationRequest t1 rnd t2 ty options doc")
  from createValidationRequest_result [OF r]
  have "tries e = 0" "last (currentValidations doc') = e"
    by (simp_all add: createValidation_fresh)
  with r run_tries [of _ doc pluginConfig calls] show ?thesis by simp
qed

text \<open>
  A wrong code, a run of the hook and another wrong code on an entry with two tries:
  the hook validates the entry after the first, so \<open>tries\<close> ends at 3; a new request
  starts at 0.
\<close>

theorem tries_never_decrease_witness:
  "tries (currentValidations (document [pending ''email'' ''123456'' 2 100]) ! 0) = 2
   \<and> tries (currentValidations
        (run (defaultConfig\<lparr>EMAIL_VALIDATION := False\<rparr>)
           [ValidateCode 50 60 ''email'' ''000000'', PreSave (clock_at 70), ValidateCode 80 90 ''email'' ''111111'']
           (document [pending ''email'' ''123456'' 2 100])) ! 0) = 3
   \<and> tries (fst (createValidationRequest 10 (digits 7) 10 ''email'' None
        (document [pending ''email'' ''123456'' 2 100]))) = 0"
proof -
  let ?cfg = "defaultConfig\<lparr>EMAIL_VALIDATION := False\<rparr>"
  let ?calls = "[ValidateCode 50 60 ''email'' ''000000'', PreSave (clock_at 70), ValidateCode 80 90 ''email'' ''111111'']"
  let ?d = "document [pending ''email'' ''123456'' 2 100]"
  have len: "0 < length (currentValidations ?d)" by (simp add: document_def currentValidations_def)
  have before: "tries (currentValidations ?d ! 0) = 2"
    by (simp add: document_def currentValidations_def pending_def)
  have after: "tries (currentValidations (run ?cfg ?calls ?d) ! 0) = 3"
    by (simp add: run_def validateCode_def preSave_def auto_blocks_def autoValidate_def
        defaultConfig_def document_def pending_def currentValidations_def)
  from tries_never_decrease [of ?d ?cfg ?calls 10 "digits 7" 10 "''email''" None] len
  have "tries (currentValidations ?d ! 0) \<le> tries (currentValidations (run ?cfg ?calls ?d) ! 0)"
    and "tries (fst (createValidationRequest 10 (digits 7) 10 ''email'' None ?d)) = 0"
    by blast+
  with before after show ?thesis by simp
qed


section \<open>One entry for each kind\<close>

text \<open>
  The methods and the hook keep an array that has at most one entry of each kind in
  that state: a request removes the entry of its kind before it pushes one, a
  submission changes no kind, and the hook pushes an entry only for a kind that has
  none. An absent or empty array is in that state.
\<close>

lemma distinct_map_filter_le1:
  "distinct (map f xs) \<Longrightarrow> length (filter (\<lambda>x. f x = k) xs) \<le> 1"
proof (induction xs)
  case Nil
  then show ?case by simp
next
  case (Cons x xs)
  show ?case
  proof (cases "f x = k")
    case True
    with Cons.prems have "\<forall>y\<in>set xs. f y \<noteq> k" by (auto simp: image_iff)
    then have "filter (\<lambda>x. f x = k) xs = []" by (simp add: filter_empty_conv)
    with True show ?thesis by simp
  next
    case False
    with Cons show ?thesis by simp
  qed
qed

lemma distinct_map_splice:
  "distinct (map f xs) \<Longrightarrow> distinct (map f (take i xs @ drop (Suc i) xs))"
proof (induction xs arbitrary: i)
  case Nil
  then show ?case by simp
next
  case (Cons x xs)
  show ?case
  proof (cases i)
    case 0
    with Cons.prems show ?thesis by simp
  next
    case (Suc k)
    from Cons.prems have "f x \<notin> f ` set xs" "distinct (map f xs)" by auto
    moreover have "set (take k xs @ drop (Suc k) xs) \<subseteq> set xs"
      by (auto dest: in_set_takeD in_set_dropD)
    ultimately show ?thesis using Cons.IH [of k] Suc by auto
  qed
qed

lemma createValidationRequest_distinct:
  assumes "distinct (map type (currentValidations doc))"
  shows "distinct (map type (currentValidations (snd (createValidationRequest t1 rnd t2 ty options doc))))"
proof -
  obtain e doc' where r: "createValidationRequest t1 rnd t2 ty options doc = (e, doc')"
    by (cases "createValidationRequest t1 rnd t2 ty options doc")
  note res = createValidationRequest_result [OF r]
  have e: "type e = ty" by (simp add: res(1) createValidation_fresh)
  let ?vs = "currentValidations doc"
  let ?rest = "case findIndex (\<lambda>v. type v = ty) ?vs of None \<Rightarrow> ?vs
               | Some i \<Rightarrow> take i ?vs @ drop (Suc i) ?vs"
  have d: "distinct (map type ?rest)"
  proof (cases "findIndex (\<lambda>v. type v = ty) ?vs")
    case None
    with assms show ?thesis by simp
  next
    case (Some i)
    from distinct_map_splice [OF assms, of i] Some show ?thesis by (simp del: map_append)
  qed
  from distinct_map_filter_le1 [OF assms, of ty]
  have "tl (filter (\<lambda>v. type v = ty) ?vs) = []"
    by (cases "filter (\<lambda>v. type v = ty) ?vs") auto
  with createValidationRequest_filter(1) [OF r]
  have "filter (\<lambda>v. type v = ty) (currentValidations doc') = [e]" by simp
  then have "filter (\<lambda>v. type v = ty) ?rest = []" by (simp add: res(2) e)
  then have "ty \<notin> type ` set ?rest" by (auto simp: filter_empty_conv)
  with d e r show ?thesis by (simp add: res(2))
qed

lemma validateCode_types:
  "map type (currentValidations (snd (validateCode pluginConfig t_check t_try ty submitted doc)))
     = map type (currentValidations doc)"
proof -
  from validateCode_effect [of pluginConfig t_check t_try ty submitted doc]
  show ?thesis
  proof
    assume "snd (validateCode pluginConfig t_check t_try ty submitted doc) = doc"
    then show ?thesis by simp
  next
    assume "\<exists>i w. i < length (currentValidations doc)
         \<and> snd (validateCode pluginConfig t_check t_try ty submitted doc)
             = doc\<lparr>validations := Some ((currentValidations doc)[i := w])\<rparr>
         \<and> type w = type (currentValidations doc ! i)
         \<and> tries w = tries (currentValidations doc ! i) + 1"
    then obtain i w where "i < length (currentValidations doc)"
      "snd (validateCode pluginConfig t_check t_try ty submitted doc)
         = doc\<lparr>validations := Some ((currentValidations doc)[i := w])\<rparr>"
      "type w = type (currentValidations doc ! i)" by blast
    then show ?thesis by (simp add: map_update list_update_same_conv)
  qed
qed

lemma autoValidate_distinct:
  assumes "autoValidate clk (vs, hc) (ty, req) = (vs1, hc1)" "distinct (map type vs)"
  shows "distinct (map type vs1)"
proof (cases rule: autoValidate_cases [of clk vs hc ty req])
  case skip
  with assms show ?thesis by simp
next
  case push
  from push(2) have "ty \<notin> type ` set vs" by (auto simp: findIndex_None_iff)
  with push assms show ?thesis by (auto simp: preconfirmed_def)
next
  case (flip i)
  from findIndex_SomeD [OF flip(2)] have "i < length vs" by simp
  then have "map type (vs[i := (vs ! i)\<lparr>validated := True\<rparr>]) = map type vs"
    by (simp add: map_update list_update_same_conv)
  with flip assms show ?thesis by simp
qed

lemma foldl_autoValidate_distinct:
  assumes "foldl (autoValidate clk) (vs, hc) bs = (vs', hc')" "distinct (map type vs)"
  shows "distinct (map type vs')"
  using assms
proof (induction bs arbitrary: vs hc)
  case Nil
  then show ?case by simp
next
  case (Cons b bs)
  obtain ty req where b: "b = (ty, req)" by (cases b)
  obtain vs1 hc1 where s: "autoValidate clk (vs, hc) (ty, req) = (vs1, hc1)"
    by (cases "autoValidate clk (vs, hc) (ty, req)")
  with Cons.prems b have rest: "foldl (autoValidate clk) (vs1, hc1) bs = (vs', hc')" by simp
  from Cons.IH [OF rest autoValidate_distinct [OF s Cons.prems(2)]] show ?case .
qed

lemma preSave_distinct:
  assumes "distinct (map type (currentValidations doc))"
  shows "distinct (map type (currentValidations (snd (preSave pluginConfig clk doc))))"
proof (cases "ENABLED pluginConfig \<and> isNew doc")
  case False
  with assms show ?thesis by (auto simp: preSave_def)
next
  case True
  obtain vs' hc' where f:
    "foldl (autoValidate clk) (currentValidations doc, False) (auto_blocks pluginConfig) = (vs', hc')"
    by (cases "foldl (autoValidate clk) (currentValidations doc, False) (auto_blocks pluginConfig)")
  from True preSave_new [OF _ _ f] foldl_autoValidate_distinct [OF f assms] assms
  show ?thesis by (cases hc') auto
qed

end
